theory Spec2Isabelle
  imports Main "HOL-Library.Word" "HOL-Library.Multiset"
begin

section \<open>The sub command of the NATS command-line client\<close>

text \<open>
  The source is \<^verbatim>\<open>src/nats/sub_command.go\<close>: the method \<^verbatim>\<open>subscribe\<close> of
  \<^verbatim>\<open>subCmd\<close> and the closure \<^verbatim>\<open>handler\<close> it registers as the per-message callback.
  Everything the command does is a call into a collaborator (the NATS connection, the
  JetStream metadata parser, \<^verbatim>\<open>fmt\<close> and \<^verbatim>\<open>log\<close>), so the model is a pair of functions
  that return, next to their result, the list of the calls they make, in order.
  What a collaborator answers is an input of the model.
\<close>

subsection \<open>Data\<close>

text \<open>A Go \<^verbatim>\<open>error\<close> is modelled by its message; \<^verbatim>\<open>nil\<close> is \<open>None\<close> of \<open>error option\<close>.\<close>

type_synonym error = string

text \<open>
  Go's \<^verbatim>\<open>int\<close> on the 64-bit platforms: addition wraps around, \<open>sint\<close> reads the value.
  (On a 32-bit platform the type has 32 bits and wraps sooner.)
\<close>

type_synonym go_int = "64 word"

text \<open>\<^verbatim>\<open>type subCmd struct\<close>, lines 28 to 34.\<close>

record subCmd =
  subject :: string
  queue :: string
  raw :: bool
  jsAck :: bool
  inbox :: bool

text \<open>
  The fields of \<^verbatim>\<open>nats.Msg\<close> the command reads. \<^verbatim>\<open>Header\<close> is a Go map from a name
  to a list of values; it is kept as the list of its entries, with distinct names
  (\<open>wf_Header\<close>). A Go map has no order of its own: the order of this list means nothing,
  and the order in which a \<^verbatim>\<open>range\<close> loop visits the names is chosen by the runtime at
  every loop (see \<open>visit\<close> below).
\<close>

type_synonym Header = "(string \<times> string list) list"

record Msg =
  Subject :: string
  Reply :: string
  Header :: Header
  Data :: string

definition wf_Header :: "Header \<Rightarrow> bool" where
  "wf_Header hdr \<longleftrightarrow> distinct (map fst hdr)"

text \<open>What the accessors of a non-nil \<^verbatim>\<open>*jsm.MsgInfo\<close> return.\<close>

record MsgInfo =
  Stream :: string
  Consumer :: string
  Delivered :: int
  ConsumerSequence :: int
  StreamSequence :: int

text \<open>
  The library functions whose code is not part of the command:
  \<^item> \<open>quote\<close> is the text \<^verbatim>\<open>fmt\<close> prints for the verb \<^verbatim>\<open>%q\<close> (\<^verbatim>\<open>strconv.Quote\<close>);
  \<^item> \<open>ParseJSMsgMetadata\<close> is \<^verbatim>\<open>jsm.ParseJSMsgMetadata\<close>, which returns a nil
    \<^verbatim>\<open>*MsgInfo\<close> together with every error: \<open>Inl\<close> is the error, \<open>Inr\<close> the metadata.
\<close>

record lib =
  quote :: "string \<Rightarrow> string"
  ParseJSMsgMetadata :: "Msg \<Rightarrow> error + MsgInfo"

text \<open>
  The calls the command makes, as they appear in a trace. \<open>Stdout s\<close> is one call of
  \<^verbatim>\<open>fmt.Println\<close> or \<^verbatim>\<open>fmt.Printf\<close> that writes \<open>s\<close>; \<open>Log s\<close> is \<^verbatim>\<open>log.Printf\<close> with
  the formatted message \<open>s\<close>; \<open>Respond r p\<close> is \<^verbatim>\<open>m.Respond(p)\<close> on a message whose
  reply subject is \<open>r\<close>.
\<close>

datatype event =
    NewInbox
  | Connect
  | Log string
  | Subscribe string
  | QueueSubscribe string string
  | Flush
  | LastError
  | Close
  | MuLock
  | MuUnlock
  | Stdout string
  | Respond string string

subsection \<open>Formatting\<close>

definition nl :: string where
  "nl = [CHR 0x0A]"

definition digit :: "nat \<Rightarrow> char" where
  "digit n = ''0123456789'' ! n"

text \<open>The verb \<^verbatim>\<open>%d\<close>: decimal digits, with a minus sign for a negative value.\<close>

fun show_nat :: "nat \<Rightarrow> string" where
  "show_nat n = (if n < 10 then [digit n] else show_nat (n div 10) @ [digit (n mod 10)])"

declare show_nat.simps [simp del]

definition show_int :: "int \<Rightarrow> string" where
  "show_int k = (if k < 0 then ''-'' @ show_nat (nat (- k)) else show_nat (nat k))"

text \<open>The verb \<^verbatim>\<open>%v\<close> on a \<^verbatim>\<open>bool\<close>.\<close>

definition show_bool :: "bool \<Rightarrow> string" where
  "show_bool b = (if b then ''true'' else ''false'')"

text \<open>\<^verbatim>\<open>strings.HasSuffix\<close>.\<close>

definition HasSuffix :: "string \<Rightarrow> string \<Rightarrow> bool" where
  "HasSuffix s suf \<longleftrightarrow> length suf \<le> length s \<and> drop (length s - length suf) s = suf"

subsection \<open>The callback\<close>

text \<open>
  The variables of \<^verbatim>\<open>subscribe\<close> that the closure captures and writes: the counter
  \<^verbatim>\<open>i\<close> (line 66) and \<^verbatim>\<open>err\<close> (declared at line 60, assigned at line 82 by the deferred
  acknowledgement and at line 137 by \<^verbatim>\<open>subscribe\<close> itself).
\<close>

record vars =
  i :: go_int
  err :: "error option"

text \<open>
  One invocation of the callback: the message, the order in which the \<^verbatim>\<open>range\<close> at line
  107 yields the names of the header (\<open>visit_ok\<close>: every name once), and what
  \<^verbatim>\<open>m.Respond(nil)\<close> returns if it is called.
\<close>

record delivery =
  msg :: Msg
  visit :: "string list"
  respond_err :: "error option"

definition visit_ok :: "Header \<Rightarrow> string list \<Rightarrow> bool" where
  "visit_ok hdr ks \<longleftrightarrow> distinct ks \<and> set ks = set (map fst hdr)"

text \<open>Lines 75 to 78: the variable \<^verbatim>\<open>info\<close>.\<close>

definition metadata :: "lib \<Rightarrow> Msg \<Rightarrow> MsgInfo option" where
  "metadata L m =
     (if Reply m \<noteq> []
      then (case ParseJSMsgMetadata L m of Inl _ \<Rightarrow> None | Inr x \<Rightarrow> Some x)
      else None)"

text \<open>Lines 95 to 104: the summary line, for the index \<open>n\<close>.\<close>

definition summary :: "lib \<Rightarrow> subCmd \<Rightarrow> go_int \<Rightarrow> Msg \<Rightarrow> MsgInfo option \<Rightarrow> string" where
  "summary L c n m info =
     (case info of
        None \<Rightarrow>
          (if Reply m \<noteq> []
           then ''[#'' @ show_int (sint n) @ ''] Received on '' @ quote L (Subject m)
                @ '' with reply '' @ quote L (Reply m) @ nl
           else ''[#'' @ show_int (sint n) @ ''] Received on '' @ quote L (Subject m) @ nl)
      | Some x \<Rightarrow>
          ''[#'' @ show_int (sint n) @ ''] Received JetStream message: consumer: ''
          @ Stream x @ '' > '' @ Consumer x @ '' / subject: '' @ Subject m
          @ '' / delivered: '' @ show_int (Delivered x)
          @ '' / consumer seq: '' @ show_int (ConsumerSequence x)
          @ '' / stream seq: '' @ show_int (StreamSequence x)
          @ '' / ack: '' @ show_bool (jsAck c) @ nl)"

text \<open>Lines 107 to 111: one \<^verbatim>\<open>Printf\<close> for every value of every name, names in the order \<open>ks\<close>.\<close>

definition header_line :: "string \<Rightarrow> string \<Rightarrow> string" where
  "header_line h val = h @ '': '' @ val @ nl"

definition values_of :: "Header \<Rightarrow> string \<Rightarrow> string list" where
  "values_of hdr h = (case map_of hdr h of None \<Rightarrow> [] | Some vals \<Rightarrow> vals)"

definition header_lines :: "Header \<Rightarrow> string list \<Rightarrow> string list" where
  "header_lines hdr ks = concat (map (\<lambda>h. map (header_line h) (values_of hdr h)) ks)"

text \<open>Lines 90 to 119: what the callback prints.\<close>

definition display :: "lib \<Rightarrow> subCmd \<Rightarrow> go_int \<Rightarrow> delivery \<Rightarrow> event list" where
  "display L c n d =
     (let m = msg d in
      if raw c then [Stdout (Data m @ nl)]
      else [Stdout (summary L c n m (metadata L m))]
           @ (if length (Header m) > 0
              then map Stdout (header_lines (Header m) (visit d)) @ [Stdout nl]
              else [])
           @ [Stdout (Data m @ nl)]
           @ (if \<not> HasSuffix (Data m) nl then [Stdout nl] else []))"

text \<open>
  Lines 80 to 88: the deferred function, which runs when the body returns, before the
  deferred \<^verbatim>\<open>mu.Unlock()\<close> (deferred calls run last in, first out).
\<close>

definition acking :: "lib \<Rightarrow> subCmd \<Rightarrow> Msg \<Rightarrow> bool" where
  "acking L c m \<longleftrightarrow> jsAck c \<and> metadata L m \<noteq> None"

definition ack :: "lib \<Rightarrow> subCmd \<Rightarrow> delivery \<Rightarrow> event list" where
  "ack L c d =
     (if acking L c (msg d)
      then Respond (Reply (msg d)) []
           # (case respond_err d of
                None \<Rightarrow> []
              | Some e \<Rightarrow> [Log (''Acknowledging message via subject '' @ Reply (msg d)
                               @ '' failed: '' @ e @ nl)])
      else [])"

text \<open>Lines 69 to 120. The assignment at line 82 writes the captured \<^verbatim>\<open>err\<close>.\<close>

definition handler :: "lib \<Rightarrow> subCmd \<Rightarrow> vars \<Rightarrow> delivery \<Rightarrow> vars \<times> event list" where
  "handler L c s d =
     (let n = i s + 1
      in (s\<lparr>i := n, err := (if acking L c (msg d) then respond_err d else err s)\<rparr>,
          [MuLock] @ display L c n d @ ack L c d @ [MuUnlock]))"

text \<open>
  The body of the callback runs between \<^verbatim>\<open>mu.Lock()\<close> and \<^verbatim>\<open>mu.Unlock()\<close>, so however
  the transport's threads deliver the messages, the invocations run one after the other,
  in the order in which they take the lock: \<open>serve\<close> runs them in that order.
\<close>

fun serve :: "lib \<Rightarrow> subCmd \<Rightarrow> vars \<Rightarrow> delivery list \<Rightarrow> vars \<times> event list" where
  "serve L c s [] = (s, [])"
| "serve L c s (d # ds) =
     (let (s1, t1) = handler L c s d; (s2, t2) = serve L c s1 ds in (s2, t1 @ t2))"

text \<open>The value of the counter \<^verbatim>\<open>i\<close> in each invocation, after line 73.\<close>

fun indices :: "lib \<Rightarrow> subCmd \<Rightarrow> vars \<Rightarrow> delivery list \<Rightarrow> go_int list" where
  "indices L c s [] = []"
| "indices L c s (d # ds) =
     (let s1 = fst (handler L c s d) in i s1 # indices L c s1 ds)"

subsection \<open>The command\<close>

text \<open>
  What the collaborators answer during one run of \<^verbatim>\<open>subscribe\<close>:
  \<^item> \<open>inbox_serial\<close>: how many inbox subjects the transport has generated in this
    process before the call of \<^verbatim>\<open>nats.NewInbox()\<close> at line 55;
  \<^item> \<open>conn_err\<close>: the error of \<^verbatim>\<open>newNatsConn\<close>;
  \<^item> \<open>sub_err\<close>: the error of \<^verbatim>\<open>nc.Subscribe\<close> or \<^verbatim>\<open>nc.QueueSubscribe\<close>;
  \<^item> \<open>flush_err\<close>: the error of \<^verbatim>\<open>nc.Flush()\<close>;
  \<^item> \<open>last_err\<close>: \<^verbatim>\<open>nc.LastError()\<close>;
  \<^item> \<open>early\<close>: the messages the transport hands to the callback, on its own threads,
    after the subscription is registered and before \<^verbatim>\<open>subscribe\<close> reaches line 137.
  The callback is registered only by a call that succeeds, so a failed subscription
  delivers nothing. Line 137 stores \<^verbatim>\<open>nc.LastError()\<close> in \<^verbatim>\<open>err\<close> and line 138 tests the
  value just stored. The messages that arrive once \<^verbatim>\<open>subscribe\<close> waits at line 142 are
  served by \<open>serve\<close> from the captured variables of the result.
\<close>

record env =
  inbox_serial :: nat
  conn_err :: "error option"
  sub_err :: "error option"
  flush_err :: "error option"
  last_err :: "error option"
  early :: "delivery list"

text \<open>
  \<^verbatim>\<open>subscribe\<close> returns an error, or waits for ever at line 142 on a channel that is never
  closed (\<^verbatim>\<open>context.Background().Done()\<close>); the \<^verbatim>\<open>return nil\<close> at line 144 is not reached.
\<close>

datatype outcome = Returned error | Blocked

record result =
  outcome :: outcome
  cmd :: subCmd
  captured :: "vars option"
  trace :: "event list"

text \<open>Lines 122 to 128.\<close>

definition banner :: "subCmd \<Rightarrow> event list" where
  "banner c =
     (if \<not> raw c \<or> inbox c
      then (if jsAck c
            then [Log (''Subscribing on '' @ subject c
                       @ '' with acknowledgement of JetStream messages'' @ nl)]
            else [Log (''Subscribing on '' @ subject c @ nl)])
      else [])"

text \<open>Lines 130 to 134.\<close>

definition register :: "subCmd \<Rightarrow> event" where
  "register c =
     (if queue c \<noteq> [] then QueueSubscribe (subject c) (queue c) else Subscribe (subject c))"

text \<open>Lines 60 to 142, with the subject resolved; \<open>pre\<close> is the trace so far.\<close>

definition connected :: "lib \<Rightarrow> env \<Rightarrow> subCmd \<Rightarrow> event list \<Rightarrow> result" where
  "connected L E c pre =
     (case conn_err E of
        Some e \<Rightarrow> \<lparr>outcome = Returned e, cmd = c, captured = None, trace = pre @ [Connect]\<rparr>
      | None \<Rightarrow>
          (let registered = (sub_err E = None);
               (s1, t1) = serve L c \<lparr>i = 0, err = None\<rparr> (if registered then early E else []);
               s2 = s1\<lparr>err := last_err E\<rparr>;
               t = pre @ [Connect] @ banner c @ [register c, Flush] @ t1 @ [LastError]
           in (case err s2 of
                 Some e \<Rightarrow> \<lparr>outcome = Returned e, cmd = c, captured = Some s2, trace = t @ [Close]\<rparr>
               | None \<Rightarrow> \<lparr>outcome = Blocked, cmd = c, captured = Some s2, trace = t\<rparr>)))"

text \<open>
  Modelled from the spec: \<^verbatim>\<open>nats.NewInbox\<close>, the \<^verbatim>\<open>generateInboxSubject()\<close> of the
  transport collaborator, whose code is not in the repository. The specification says of it
  only that it generates a non-empty, inbox-style subject that is unique within the
  process. The model numbers the calls of the process and writes the number of the call
  after the inbox prefix, so that no two calls give the same subject.
\<close>

definition generateInboxSubject :: "nat \<Rightarrow> string" where
  "generateInboxSubject k = ''_INBOX.'' @ show_nat k"

text \<open>Lines 53 to 145.\<close>

definition subscribe :: "lib \<Rightarrow> env \<Rightarrow> subCmd \<Rightarrow> result" where
  "subscribe L E c =
     (if subject c = [] \<and> inbox c then connected L E (c\<lparr>subject := generateInboxSubject (inbox_serial E)\<rparr>) [NewInbox]
      else if subject c = []
      then \<lparr>outcome = Returned ''subject is required'', cmd = c, captured = None, trace = []\<rparr>
      else connected L E c [])"

subsection \<open>Reading a trace\<close>

definition is_registration :: "event \<Rightarrow> bool" where
  "is_registration e = (case e of Subscribe _ \<Rightarrow> True | QueueSubscribe _ _ \<Rightarrow> True | _ \<Rightarrow> False)"

definition is_callback_event :: "event \<Rightarrow> bool" where
  "is_callback_event e =
     (case e of MuLock \<Rightarrow> True | MuUnlock \<Rightarrow> True | Stdout _ \<Rightarrow> True | Respond _ _ \<Rightarrow> True
      | Log _ \<Rightarrow> True | _ \<Rightarrow> False)"

text \<open>What the callback writes to standard output: call by call, and as one text.\<close>

definition printed :: "lib \<Rightarrow> subCmd \<Rightarrow> go_int \<Rightarrow> delivery \<Rightarrow> string list" where
  "printed L c n d = concat (map (\<lambda>e. case e of Stdout s \<Rightarrow> [s] | _ \<Rightarrow> []) (display L c n d))"

definition stdout_text :: "event list \<Rightarrow> string" where
  "stdout_text evs = concat (map (\<lambda>e. case e of Stdout s \<Rightarrow> s | _ \<Rightarrow> []) evs)"

text \<open>
  The payload text as the specification words it: the payload, with a line terminator
  appended only when the payload does not end with one.
\<close>

definition spec_payload_text :: "string \<Rightarrow> string" where
  "spec_payload_text p = (if HasSuffix p nl then p else p @ nl)"

subsection \<open>Concrete inputs\<close>

text \<open>
  A stand-in for the libraries, used only to evaluate the model on concrete inputs: it
  quotes by adding double quotes and knows one JetStream acknowledgement subject.
\<close>

definition example_info :: MsgInfo where
  "example_info = \<lparr>Stream = ''ORDERS'', Consumer = ''NEW'', Delivered = 1,
                    ConsumerSequence = 7, StreamSequence = 42\<rparr>"

definition example_lib :: lib where
  "example_lib =
     \<lparr>quote = (\<lambda>s. [CHR 0x22] @ s @ [CHR 0x22]),
      ParseJSMsgMetadata = (\<lambda>m. if Reply m = ''$JS.ACK.ORDERS.NEW.1.42.7.1605139610113260000.0''
                                 then Inr example_info
                                 else Inl ''message metadata does not appear to be an ACK'')\<rparr>"

definition example_cmd :: subCmd where
  "example_cmd = \<lparr>subject = ''orders'', queue = [], raw = False, jsAck = True, inbox = False\<rparr>"

definition quiet_env :: env where
  "quiet_env = \<lparr>inbox_serial = 3, conn_err = None, sub_err = None, flush_err = None,
                 last_err = None, early = []\<rparr>"

definition js_msg :: Msg where
  "js_msg = \<lparr>Subject = ''orders'', Reply = ''$JS.ACK.ORDERS.NEW.1.42.7.1605139610113260000.0'', Header = [],
              Data = ''paid''\<rparr>"

definition plain_msg :: Msg where
  "plain_msg = \<lparr>Subject = ''orders'', Reply = [], Header = [], Data = ''paid''\<rparr>"

definition ab_header :: Header where
  "ab_header = [(''A'', [''1'', ''2'']), (''B'', [''x''])]"

definition failing_ack :: delivery where
  "failing_ack = \<lparr>msg = js_msg, visit = [], respond_err = Some ''nats: connection closed''\<rparr>"

section \<open>Facts about the model\<close>

lemma handler_i: "i (fst (handler L c s d)) = i s + 1"
  by (simp add: handler_def Let_def)

lemma handler_trace: "snd (handler L c s d) = [MuLock] @ display L c (i s + 1) d @ ack L c d @ [MuUnlock]"
  by (simp add: handler_def Let_def)

lemma serve_i: "i (fst (serve L c s ds)) = i s + of_nat (length ds)"
  by (induction ds arbitrary: s) (simp_all add: split_beta handler_i)

lemma indices_eq: "indices L c s ds = map (\<lambda>k. i s + of_nat k) [1..<Suc (length ds)]"
proof (induction ds arbitrary: s)
  case Nil
  then show ?case by simp
next
  case (Cons d ds)
  have "[1..<Suc (Suc (length ds))] = 1 # map Suc [1..<Suc (length ds)]"
    by (subst upt_rec) (simp add: map_Suc_upt)
  then show ?case using Cons
    by (simp add: handler_i Let_def comp_def)
qed

lemma serve_trace:
  "snd (serve L c s ds) =
     concat (map (\<lambda>(n, d). [MuLock] @ display L c n d @ ack L c d @ [MuUnlock])
                 (zip (indices L c s ds) ds))"
  by (induction ds arbitrary: s) (simp_all add: split_beta handler_trace handler_i Let_def)

lemma display_callback: "e \<in> set (display L c n d) \<Longrightarrow> is_callback_event e"
  by (auto simp: display_def Let_def is_callback_event_def split: if_splits)

lemma ack_callback: "e \<in> set (ack L c d) \<Longrightarrow> is_callback_event e"
  by (auto simp: ack_def is_callback_event_def split: if_splits option.splits)

lemma handler_callback: "e \<in> set (snd (handler L c s d)) \<Longrightarrow> is_callback_event e"
  by (auto simp: handler_trace dest: display_callback ack_callback) (simp_all add: is_callback_event_def)

lemma serve_callback: "e \<in> set (snd (serve L c s ds)) \<Longrightarrow> is_callback_event e"
  by (induction ds arbitrary: s) (auto simp: split_beta dest: handler_callback)

lemma serve_no_registration: "filter is_registration (snd (serve L c s ds)) = []"
  by (auto simp: filter_empty_conv is_registration_def dest!: serve_callback
      simp: is_callback_event_def split: event.splits)

lemma serve_no_NewInbox: "NewInbox \<notin> set (snd (serve L c s ds))"
  by (auto dest!: serve_callback simp: is_callback_event_def)

lemma banner_no_registration: "filter is_registration (banner c) = []"
  by (simp add: banner_def is_registration_def)

lemma is_registration_register: "is_registration (register c)"
  by (simp add: register_def is_registration_def)

lemma connected_cmd: "cmd (connected L E c pre) = c"
  by (simp add: connected_def Let_def split_beta split: option.splits)

lemma connected_registrations:
  "filter is_registration (trace (connected L E c pre)) =
     filter is_registration pre @ (if conn_err E = None then [register c] else [])"
  by (simp add: connected_def Let_def split_beta serve_no_registration banner_no_registration
      is_registration_register split: option.splits)
    (simp add: is_registration_def)

lemma connected_NewInbox:
  "NewInbox \<in> set (trace (connected L E c pre)) \<longleftrightarrow> NewInbox \<in> set pre"
  by (auto simp: connected_def Let_def split_beta serve_no_NewInbox banner_def register_def
      split: option.splits)

lemma connected_NewInbox_count:
  "filter (\<lambda>e. e = NewInbox) (trace (connected L E c pre)) = filter (\<lambda>e. e = NewInbox) pre"
proof -
  have "filter (\<lambda>e. e = NewInbox) (snd (serve L c s ds)) = []" for s ds
    using serve_no_NewInbox [of L c s ds] by (auto simp: filter_empty_conv)
  then show ?thesis
    by (simp add: connected_def Let_def split_beta banner_def register_def split: option.splits)
qed

lemma connected_unregistered:
  "conn_err E = None \<Longrightarrow> sub_err E = Some e \<Longrightarrow>
   connected L E c pre =
     (case last_err E of
        None \<Rightarrow> \<lparr>outcome = Blocked, cmd = c, captured = Some \<lparr>i = 0, err = None\<rparr>,
                  trace = pre @ [Connect] @ banner c @ [register c, Flush, LastError]\<rparr>
      | Some x \<Rightarrow> \<lparr>outcome = Returned x, cmd = c, captured = Some \<lparr>i = 0, err = Some x\<rparr>,
                  trace = pre @ [Connect] @ banner c @ [register c, Flush, LastError, Close]\<rparr>)"
  by (simp add: connected_def split: option.splits)

lemma connected_unregistered_shape:
  assumes "conn_err E = None" and "sub_err E = Some e"
  shows "\<exists>before post. trace (connected L E c pre) = before @ [register c, Flush, LastError] @ post
           \<and> (post = [] \<or> post = [Close])"
proof (cases "last_err E")
  case None
  with assms have "trace (connected L E c pre)
      = (pre @ [Connect] @ banner c) @ [register c, Flush, LastError] @ []"
    by (simp add: connected_unregistered)
  then show ?thesis by blast
next
  case (Some x)
  with assms have "trace (connected L E c pre)
      = (pre @ [Connect] @ banner c) @ [register c, Flush, LastError] @ [Close]"
    by (simp add: connected_unregistered)
  then show ?thesis by blast
qed

lemma connected_unregistered_outcome:
  "conn_err E = None \<Longrightarrow> sub_err E = Some e \<Longrightarrow>
   outcome (connected L E c pre) = (case last_err E of None \<Rightarrow> Blocked | Some x \<Rightarrow> Returned x)"
  by (simp add: connected_unregistered split: option.splits)

lemma acking_subject [simp]: "acking L (c\<lparr>subject := x\<rparr>) m = acking L c m"
  by (simp add: acking_def)

lemma handler_err:
  "err (fst (handler L c s d)) = (if acking L c (msg d) then respond_err d else err s)"
  by (simp add: handler_def Let_def)

lemma connected_outcome:
  "conn_err E = None \<Longrightarrow>
   outcome (connected L E c pre) = (case last_err E of None \<Rightarrow> Blocked | Some x \<Rightarrow> Returned x)"
  by (simp add: connected_def Let_def split_beta split: option.splits)

lemma connected_outcome_early:
  "outcome (connected L (E\<lparr>early := ds\<rparr>) c pre) = outcome (connected L E c pre)"
  by (simp add: connected_def Let_def split_beta split: option.splits)

lemma connected_captured_err:
  "captured (connected L E c pre) = Some s \<Longrightarrow> err s = last_err E"
  by (auto simp: connected_def Let_def split_beta split: option.splits)

lemma connected_flush_err: "connected L (E\<lparr>flush_err := f\<rparr>) c pre = connected L E c pre"
  by (simp add: connected_def Let_def cong: option.case_cong if_cong)

lemma connected_trace_shape:
  "conn_err E = None \<Longrightarrow>
   \<exists>before mid post. trace (connected L E c pre) = before @ [register c, Flush] @ mid @ [LastError] @ post"
proof -
  assume a: "conn_err E = None"
  obtain s1 t1 where 1: "serve L c \<lparr>i = 0, err = None\<rparr> (if sub_err E = None then early E else []) = (s1, t1)"
    by (cases "serve L c \<lparr>i = 0, err = None\<rparr> (if sub_err E = None then early E else [])")
  show ?thesis
  proof (cases "last_err E")
    case None
    with a 1 have "trace (connected L E c pre) = (pre @ [Connect] @ banner c) @ [register c, Flush] @ t1 @ [LastError] @ []"
      by (simp add: connected_def)
    then show ?thesis by blast
  next
    case (Some x)
    with a 1 have "trace (connected L E c pre) = (pre @ [Connect] @ banner c) @ [register c, Flush] @ t1 @ [LastError] @ [Close]"
      by (simp add: connected_def)
    then show ?thesis by blast
  qed
qed

lemma digit_inj: "a < 10 \<Longrightarrow> b < 10 \<Longrightarrow> digit a = digit b \<Longrightarrow> a = b"
proof -
  assume a: "a < 10" and b: "b < 10" and e: "digit a = digit b"
  have d: "distinct ''0123456789''" by simp
  have "length ''0123456789'' = 10" by simp
  with a b e d show "a = b"
    unfolding digit_def by (metis nth_eq_iff_index_eq)
qed

lemma show_nat_nonempty: "show_nat n \<noteq> []"
  by (subst show_nat.simps) simp

lemma show_nat_small: "n < 10 \<Longrightarrow> show_nat n = [digit n]"
  by (subst show_nat.simps) simp

lemma show_nat_big: "\<not> n < 10 \<Longrightarrow> show_nat n = show_nat (n div 10) @ [digit (n mod 10)]"
  by (subst show_nat.simps) simp

lemma show_nat_inj: "show_nat n = show_nat m \<Longrightarrow> n = m"
proof (induction n arbitrary: m rule: show_nat.induct)
  case (1 n)
  show ?case
  proof (cases "n < 10")
    case True
    note n = this
    show ?thesis
    proof (cases "m < 10")
      case True
      with n "1.prems" show ?thesis
        by (simp add: show_nat_small digit_inj)
    next
      case False
      with n "1.prems" show_nat_nonempty [of "m div 10"] show ?thesis
        by (simp add: show_nat_small show_nat_big)
    qed
  next
    case False
    note n = this
    show ?thesis
    proof (cases "m < 10")
      case True
      with n "1.prems" show_nat_nonempty [of "n div 10"] show ?thesis
        by (simp add: show_nat_small show_nat_big)
    next
      case False
      with n "1.prems" have e: "show_nat (n div 10) = show_nat (m div 10)"
        and d: "digit (n mod 10) = digit (m mod 10)"
        by (simp_all add: show_nat_big)
      from "1.IH" [OF n e] have "n div 10 = m div 10" .
      moreover from d have "n mod 10 = m mod 10"
        by (intro digit_inj) simp_all
      ultimately show ?thesis
        by (metis div_mult_mod_eq)
    qed
  qed
qed

lemma generateInboxSubject_nonempty: "generateInboxSubject k \<noteq> []"
  by (simp add: generateInboxSubject_def)

lemma generateInboxSubject_inj: "generateInboxSubject j = generateInboxSubject k \<Longrightarrow> j = k"
  by (simp add: generateInboxSubject_def show_nat_inj)

lemma display_Stdout: "display L c n d = map Stdout (printed L c n d)"
  by (simp add: display_def printed_def Let_def comp_def)

lemma acking_iff:
  "acking L c m \<longleftrightarrow> jsAck c \<and> Reply m \<noteq> [] \<and> (\<exists>x. ParseJSMsgMetadata L m = Inr x)"
  by (auto simp: acking_def metadata_def split: sum.splits)

lemma sint_of_nat_small: "n < 2 ^ 63 \<Longrightarrow> sint (of_nat n :: 64 word) = int n"
  by (simp add: signed_of_nat signed_take_bit_int_eq_self)

lemma summary_prefix:
  "\<exists>rest. summary L c n m info = ''[#'' @ show_int (sint n) @ ''] Received'' @ rest"
  by (cases info; cases "Reply m = []") (simp_all add: summary_def)

lemma display_head:
  "\<not> raw c \<Longrightarrow>
   \<exists>rest. hd (display L c n d) = Stdout (''[#'' @ show_int (sint n) @ ''] Received'' @ rest)"
  using summary_prefix [of L c n "msg d" "metadata L (msg d)"]
  by (auto simp: display_def Let_def)

lemma indices_small:
  assumes "i s = 0" and "length ds < 2 ^ 63"
  shows "map sint (indices L c s ds) = map int [1..<Suc (length ds)]"
proof -
  have "sint (of_nat k :: 64 word) = int k" if "k \<in> set [1..<Suc (length ds)]" for k
    using that assms(2) by (intro sint_of_nat_small) auto
  then show ?thesis
    using assms(1) by (simp add: indices_eq)
qed

lemma indices_last:
  "ds \<noteq> [] \<Longrightarrow> last (indices L c s ds) = i s + of_nat (length ds)"
  by (auto simp: indices_eq last_map Suc_le_eq)

lemma stdout_text_append [simp]: "stdout_text (xs @ ys) = stdout_text xs @ stdout_text ys"
  by (simp add: stdout_text_def)

lemma stdout_text_Cons:
  "stdout_text (e # es) = (case e of Stdout s \<Rightarrow> s | _ \<Rightarrow> []) @ stdout_text es"
  by (simp add: stdout_text_def)

lemma stdout_text_Nil [simp]: "stdout_text [] = []"
  by (simp add: stdout_text_def)

lemma stdout_text_map_Stdout [simp]: "stdout_text (map Stdout xs) = concat xs"
  by (induction xs) (simp_all add: stdout_text_Cons)

lemma stdout_text_ack [simp]: "stdout_text (ack L c d) = []"
  by (simp add: ack_def stdout_text_Cons split: option.splits)

lemma printed_eq:
  "printed L c n d =
     (if raw c then [Data (msg d) @ nl]
      else [summary L c n (msg d) (metadata L (msg d))]
           @ (if Header (msg d) \<noteq> [] then header_lines (Header (msg d)) (visit d) @ [nl] else [])
           @ [Data (msg d) @ nl]
           @ (if HasSuffix (Data (msg d)) nl then [] else [nl]))"
  by (simp add: printed_def display_def Let_def comp_def)

lemma handler_text: "stdout_text (snd (handler L c s d)) = concat (printed L c (i s + 1) d)"
  by (simp add: handler_trace display_Stdout stdout_text_Cons)

lemma HasSuffix_nl: "HasSuffix s nl \<longleftrightarrow> s \<noteq> [] \<and> last s = CHR 0x0A"
proof (cases s rule: rev_cases)
  case Nil
  then show ?thesis by (simp add: HasSuffix_def nl_def)
next
  case (snoc ys y)
  then show ?thesis by (auto simp: HasSuffix_def nl_def)
qed

lemma HasSuffix_append: "HasSuffix (xs @ suf) suf"
  by (simp add: HasSuffix_def)

lemma payload_ends_blank:
  "HasSuffix (before @ p @ nl @ (if HasSuffix p nl then [] else nl)) (nl @ nl)"
proof (cases "HasSuffix p nl")
  case True
  then obtain q where "p = q @ nl"
    by (metis HasSuffix_nl append_butlast_last_id nl_def)
  then have "before @ p @ nl @ (if HasSuffix p nl then [] else nl) = (before @ q) @ (nl @ nl)"
    using True by simp
  then show ?thesis by (simp only: HasSuffix_append)
next
  case False
  then have "before @ p @ nl @ (if HasSuffix p nl then [] else nl) = (before @ p) @ (nl @ nl)"
    by simp
  then show ?thesis by (simp only: HasSuffix_append)
qed

lemma values_of_entry: "wf_Header hdr \<Longrightarrow> (h, vals) \<in> set hdr \<Longrightarrow> values_of hdr h = vals"
  by (simp add: wf_Header_def values_of_def)

lemma header_lines_contiguous:
  assumes "wf_Header hdr" and "visit_ok hdr ks" and "(h, vals) \<in> set hdr"
  shows "\<exists>pre post. header_lines hdr ks = pre @ map (header_line h) vals @ post"
proof -
  from assms(2,3) have "h \<in> set ks"
    by (force simp: visit_ok_def)
  then obtain ks1 ks2 where "ks = ks1 @ h # ks2"
    by (auto dest: split_list)
  then have "header_lines hdr ks =
      header_lines hdr ks1 @ map (header_line h) (values_of hdr h) @ header_lines hdr ks2"
    by (simp add: header_lines_def)
  with values_of_entry [OF assms(1,3)] show ?thesis by auto
qed

lemma mset_concat_map_cong:
  assumes "mset xs = mset ys"
  shows "mset (concat (map g xs)) = mset (concat (map g ys))"
proof -
  have "mset (concat (map g zs)) = sum_mset (image_mset (\<lambda>z. mset (g z)) (mset zs))" for zs
    by (induction zs) simp_all
  with assms show ?thesis by simp
qed

lemma header_lines_mset:
  assumes "wf_Header hdr" and "visit_ok hdr ks"
  shows "mset (header_lines hdr ks) =
           mset (concat (map (\<lambda>(h, vals). map (header_line h) vals) hdr))"
proof -
  let ?g = "\<lambda>h. map (header_line h) (values_of hdr h)"
  from assms have "mset ks = mset (map fst hdr)"
    unfolding visit_ok_def wf_Header_def by (metis set_eq_iff_mset_eq_distinct)
  then have 1: "mset (header_lines hdr ks) = mset (concat (map ?g (map fst hdr)))"
    unfolding header_lines_def by (rule mset_concat_map_cong)
  have 2: "map ?g (map fst hdr) = map (\<lambda>(h, vals). map (header_line h) vals) hdr"
    using values_of_entry [OF assms(1)] by auto
  show ?thesis by (simp only: 1 2)
qed

lemma handler_ignores_err: "snd (handler L c (s\<lparr>err := x\<rparr>) d) = snd (handler L c s d)"
  by (simp add: handler_trace)

lemma serve_ignores_err: "snd (serve L c (s\<lparr>err := x\<rparr>) ds) = snd (serve L c s ds)"
  by (simp add: serve_trace indices_eq)

section \<open>The claims\<close>

subsection \<open>C1: the display index\<close>

text \<open>
  Claim C1. The counter starts at zero and every invocation of the callback adds one to
  it under the lock, before anything else, so the invocations carry the indices 1, 2, 3
  and so on in the order in which they take the lock, and outside raw mode the first thing
  an invocation prints is its summary line, which starts with its own index. This holds
  for every run of fewer than \<open>2 ^ 63\<close> messages: the counter is a Go \<^verbatim>\<open>int\<close>, and
  \<open>index_wraps_counterexample\<close> shows the index of message number \<open>2 ^ 63\<close>.
\<close>

theorem indices_count_up:
  assumes "i s = 0" and "length ds < 2 ^ 63"
  shows "map sint (indices L c s ds) = map int [1..<Suc (length ds)]
    \<and> snd (serve L c s ds) =
        concat (map (\<lambda>(n, d). [MuLock] @ display L c n d @ ack L c d @ [MuUnlock])
                    (zip (indices L c s ds) ds))
    \<and> (\<not> raw c \<longrightarrow>
         (\<forall>(n, d) \<in> set (zip (indices L c s ds) ds).
            \<exists>rest. hd (display L c n d) = Stdout (''[#'' @ show_int (sint n) @ ''] Received'' @ rest)))"
  using indices_small [OF assms, of L c] serve_trace [of L c s ds] display_head [of c L]
  by auto

theorem indices_count_up_witness:
  "i \<lparr>i = 0, err = None\<rparr> = 0
   \<and> length [\<lparr>msg = plain_msg, visit = [], respond_err = None\<rparr>, failing_ack] < 2 ^ 63
   \<and> map sint (indices example_lib example_cmd \<lparr>i = 0, err = None\<rparr>
                  [\<lparr>msg = plain_msg, visit = [], respond_err = None\<rparr>, failing_ack]) = [1, 2]"
proof -
  have h: "i \<lparr>i = 0, err = None\<rparr> = 0"
    "length [\<lparr>msg = plain_msg, visit = [], respond_err = None\<rparr>, failing_ack] < 2 ^ 63"
    by simp_all
  show ?thesis
    using h indices_count_up [OF h, of example_lib example_cmd] by (simp add: upt_rec)
qed

theorem index_wraps_counterexample:
  "sint (last (indices example_lib example_cmd \<lparr>i = 0, err = None\<rparr>
                 (replicate (2 ^ 63) \<lparr>msg = js_msg, visit = [], respond_err = None\<rparr>)))
     = - (2 ^ 63)"
proof -
  have "replicate (2 ^ 63) \<lparr>msg = js_msg, visit = [], respond_err = None\<rparr> \<noteq> []"
    by simp
  from indices_last [OF this, of example_lib example_cmd "\<lparr>i = 0, err = None\<rparr>"]
  have "last (indices example_lib example_cmd \<lparr>i = 0, err = None\<rparr>
                 (replicate (2 ^ 63) \<lparr>msg = js_msg, visit = [], respond_err = None\<rparr>))
             = (2 ^ 63 :: 64 word)"
    by simp
  then show ?thesis by simp
qed

subsection \<open>C2: when the acknowledgement is sent\<close>

text \<open>
  Claim C2. The trace of one invocation of the callback is: the lock, then only writes
  to standard output, then the call \<^verbatim>\<open>m.Respond(nil)\<close> on the reply subject (with, if it
  fails, its log line) exactly when the acknowledge flag is set, the reply subject is not
  empty and the metadata parses, then the unlock. The raw flag plays no part in the
  condition, and a reply subject that does not parse gives no call.
\<close>

theorem ack_iff_flag_and_metadata:
  "\<exists>out logs.
     snd (handler L c s d) =
       [MuLock] @ map Stdout out
       @ (if jsAck c \<and> Reply (msg d) \<noteq> [] \<and> (\<exists>x. ParseJSMsgMetadata L (msg d) = Inr x)
          then Respond (Reply (msg d)) [] # map Log logs else [])
       @ [MuUnlock]"
proof -
  have "\<exists>logs. ack L c d = (if acking L c (msg d) then Respond (Reply (msg d)) [] # map Log logs else [])"
  proof (cases "respond_err d")
    case None
    then have "ack L c d = (if acking L c (msg d) then Respond (Reply (msg d)) [] # map Log [] else [])"
      by (simp add: ack_def)
    then show ?thesis by blast
  next
    case (Some e)
    then have "ack L c d = (if acking L c (msg d) then Respond (Reply (msg d)) [] 
       # map Log [''Acknowledging message via subject '' @ Reply (msg d) @ '' failed: '' @ e @ nl] else [])"
      by (simp add: ack_def)
    then show ?thesis by blast
  qed
  then obtain logs where "ack L c d = (if acking L c (msg d) then Respond (Reply (msg d)) [] # map Log logs else [])"
    by blast
  then have "snd (handler L c s d) =
       [MuLock] @ map Stdout (printed L c (i s + 1) d)
       @ (if jsAck c \<and> Reply (msg d) \<noteq> [] \<and> (\<exists>x. ParseJSMsgMetadata L (msg d) = Inr x)
          then Respond (Reply (msg d)) [] # map Log logs else [])
       @ [MuUnlock]"
    by (simp add: handler_trace display_Stdout acking_iff)
  then show ?thesis by blast
qed

theorem ack_iff_flag_and_metadata_witness:
  "snd (handler example_lib (example_cmd\<lparr>raw := True\<rparr>) \<lparr>i = 0, err = None\<rparr>
         \<lparr>msg = js_msg, visit = [], respond_err = None\<rparr>)
     = [MuLock, Stdout (''paid'' @ nl), Respond ''$JS.ACK.ORDERS.NEW.1.42.7.1605139610113260000.0'' [], MuUnlock]
   \<and> snd (handler example_lib (example_cmd\<lparr>raw := True\<rparr>) \<lparr>i = 0, err = None\<rparr>
         \<lparr>msg = js_msg\<lparr>Reply := ''reply.to''\<rparr>, visit = [], respond_err = None\<rparr>)
     = [MuLock, Stdout (''paid'' @ nl), MuUnlock]"
  using ack_iff_flag_and_metadata [of example_lib "example_cmd\<lparr>raw := True\<rparr>"
      "\<lparr>i = 0, err = None\<rparr>" "\<lparr>msg = js_msg, visit = [], respond_err = None\<rparr>"]
  by (simp add: handler_trace display_def ack_def acking_def metadata_def example_lib_def
      example_cmd_def js_msg_def)

subsection \<open>C3: no subject and no inbox\<close>

text \<open>
  Claim C3. With an empty subject and the inbox flag unset, \<^verbatim>\<open>subscribe\<close> returns the
  error "subject is required" and has made no call at all: the trace is empty (no
  connection, no subscription), the command's fields are unchanged and the variables of
  the callback do not exist yet.
\<close>

theorem missing_subject_is_rejected:
  "subject c = [] \<Longrightarrow> \<not> inbox c \<Longrightarrow>
   subscribe L E c =
     \<lparr>outcome = Returned ''subject is required'', cmd = c, captured = None, trace = []\<rparr>"
  by (simp add: subscribe_def)

theorem missing_subject_is_rejected_witness:
  "subject (example_cmd\<lparr>subject := []\<rparr>) = [] \<and> \<not> inbox (example_cmd\<lparr>subject := []\<rparr>)
   \<and> outcome (subscribe example_lib quiet_env (example_cmd\<lparr>subject := []\<rparr>))
       = Returned ''subject is required''
   \<and> trace (subscribe example_lib quiet_env (example_cmd\<lparr>subject := []\<rparr>)) = []"
proof -
  have h: "subject (example_cmd\<lparr>subject := []\<rparr>) = []" "\<not> inbox (example_cmd\<lparr>subject := []\<rparr>)"
    by (simp_all add: example_cmd_def)
  show ?thesis
    using h missing_subject_is_rejected [OF h, of example_lib quiet_env] by simp
qed

subsection \<open>C4: the generated inbox\<close>

text \<open>
  Claim C4. With the inbox flag set and an empty subject, the inbox generator is called
  once, and the subject it generates becomes the command's subject and is the subject of
  the one call of \<^verbatim>\<open>Subscribe\<close> or \<^verbatim>\<open>QueueSubscribe\<close> (made when the connection opens).
  That subject is not empty, and it is unique: no other call of the generator gives it.
  The generator is the one modelled from the specification.
\<close>

theorem inbox_subject_is_used:
  "subject c = [] \<Longrightarrow> inbox c \<Longrightarrow>
   subject (cmd (subscribe L E c)) = generateInboxSubject (inbox_serial E)
   \<and> subject (cmd (subscribe L E c)) \<noteq> []
   \<and> (\<forall>k. k \<noteq> inbox_serial E \<longrightarrow> generateInboxSubject k \<noteq> subject (cmd (subscribe L E c)))
   \<and> filter (\<lambda>e. e = NewInbox) (trace (subscribe L E c)) = [NewInbox]
   \<and> filter is_registration (trace (subscribe L E c)) =
       (if conn_err E = None
        then [if queue c \<noteq> [] then QueueSubscribe (subject (cmd (subscribe L E c))) (queue c)
              else Subscribe (subject (cmd (subscribe L E c)))]
        else [])"
  using generateInboxSubject_inj [of _ "inbox_serial E"]
  by (auto simp: subscribe_def connected_cmd connected_NewInbox_count connected_registrations
      register_def is_registration_def generateInboxSubject_nonempty)

theorem inbox_subject_is_used_witness:
  "subject (example_cmd\<lparr>subject := [], inbox := True\<rparr>) = []
   \<and> inbox (example_cmd\<lparr>subject := [], inbox := True\<rparr>)
   \<and> subject (cmd (subscribe example_lib quiet_env (example_cmd\<lparr>subject := [], inbox := True\<rparr>)))
       = ''_INBOX.3''
   \<and> generateInboxSubject 4 \<noteq> ''_INBOX.3''
   \<and> filter is_registration
        (trace (subscribe example_lib quiet_env (example_cmd\<lparr>subject := [], inbox := True\<rparr>)))
       = [Subscribe ''_INBOX.3'']"
proof -
  let ?c = "example_cmd\<lparr>subject := [], inbox := True\<rparr>"
  have h: "subject ?c = []" "inbox ?c"
    by (simp_all add: example_cmd_def)
  have g: "generateInboxSubject (inbox_serial quiet_env) = ''_INBOX.3''"
    by (simp add: generateInboxSubject_def quiet_env_def show_nat.simps digit_def)
  have k: "(4::nat) \<noteq> inbox_serial quiet_env" "conn_err quiet_env = None" "queue ?c = []"
    by (simp_all add: quiet_env_def example_cmd_def)
  from inbox_subject_is_used [OF h, of example_lib quiet_env] h g k show ?thesis
    by auto
qed

subsection \<open>C5: the payload\<close>

text \<open>
  Claim C5, as the code has it. In raw mode the whole output of an invocation is the
  payload followed by one line terminator, which \<^verbatim>\<open>Println\<close> appends whether or not the
  payload ends with one. Outside raw mode the payload comes after the summary and the
  header lines, followed by one line terminator, and by a second one when the payload
  does not end with a line terminator; so the output of a message always ends with an
  empty line.
\<close>

theorem payload_output:
  "(raw c \<longrightarrow> stdout_text (snd (handler L c s d)) = Data (msg d) @ nl)
   \<and> (\<not> raw c \<longrightarrow>
        (\<exists>before. stdout_text (snd (handler L c s d))
            = before @ Data (msg d) @ nl @ (if HasSuffix (Data (msg d)) nl then [] else nl)
          \<and> before = summary L c (i s + 1) (msg d) (metadata L (msg d))
              @ (if Header (msg d) \<noteq> []
                 then concat (header_lines (Header (msg d)) (visit d)) @ nl else []))
        \<and> HasSuffix (stdout_text (snd (handler L c s d))) (nl @ nl))"
proof (cases "raw c")
  case True
  then show ?thesis by (simp add: handler_text printed_eq)
next
  case False
  define before where "before = summary L c (i s + 1) (msg d) (metadata L (msg d))
              @ (if Header (msg d) \<noteq> []
                 then concat (header_lines (Header (msg d)) (visit d)) @ nl else [])"
  have eq: "stdout_text (snd (handler L c s d))
            = before @ Data (msg d) @ nl @ (if HasSuffix (Data (msg d)) nl then [] else nl)"
    using False by (simp add: handler_text printed_eq before_def)
  have "HasSuffix (stdout_text (snd (handler L c s d))) (nl @ nl)"
    unfolding eq by (rule payload_ends_blank)
  with eq False show ?thesis by (simp add: before_def)
qed

theorem payload_output_witness:
  "raw (example_cmd\<lparr>raw := True\<rparr>) \<and> \<not> raw example_cmd
   \<and> stdout_text (snd (handler example_lib (example_cmd\<lparr>raw := True\<rparr>) \<lparr>i = 0, err = None\<rparr>
         \<lparr>msg = plain_msg, visit = [], respond_err = None\<rparr>)) = ''paid'' @ nl
   \<and> HasSuffix (stdout_text (snd (handler example_lib example_cmd \<lparr>i = 0, err = None\<rparr>
         \<lparr>msg = plain_msg, visit = [], respond_err = None\<rparr>))) (nl @ nl)"
proof -
  let ?s = "\<lparr>i = 0, err = None\<rparr>"
  let ?d = "\<lparr>msg = plain_msg, visit = [], respond_err = None\<rparr>"
  have r: "raw (example_cmd\<lparr>raw := True\<rparr>)" and n: "\<not> raw example_cmd"
    by (simp_all add: example_cmd_def)
  have 1: "stdout_text (snd (handler example_lib (example_cmd\<lparr>raw := True\<rparr>) ?s ?d))
             = Data (msg ?d) @ nl"
    using payload_output [of "example_cmd\<lparr>raw := True\<rparr>" example_lib ?s ?d] r by blast
  have 2: "HasSuffix (stdout_text (snd (handler example_lib example_cmd ?s ?d))) (nl @ nl)"
    using payload_output [of example_cmd example_lib ?s ?d] n by blast
  have 3: "Data (msg ?d) = ''paid''"
    by (simp add: plain_msg_def)
  from r n 1 2 show ?thesis
    unfolding 3 by blast
qed

text \<open>
  The claim as it is worded fails in raw mode on a payload that ends with a line
  terminator: the output has two.
\<close>

theorem raw_newline_counterexample:
  "stdout_text (snd (handler example_lib (example_cmd\<lparr>raw := True\<rparr>) \<lparr>i = 0, err = None\<rparr>
       \<lparr>msg = js_msg\<lparr>Data := ''paid'' @ nl\<rparr>, visit = [], respond_err = None\<rparr>))
     = ''paid'' @ nl @ nl
   \<and> spec_payload_text (''paid'' @ nl) = ''paid'' @ nl
   \<and> ''paid'' @ nl @ nl \<noteq> ''paid'' @ nl"
  by (simp add: handler_text printed_eq example_cmd_def spec_payload_text_def HasSuffix_def nl_def)

subsection \<open>C6: the header lines\<close>

text \<open>
  Claim C6, as the code has it. Outside raw mode, for a header that is not empty, the
  callback prints the summary, then the header lines, then an empty line, then the
  payload. The header lines are, for each name in the order in which the \<^verbatim>\<open>range\<close> loop
  visits the names, one line "name: value" for each value of the name in the order of its
  list: every value of every name has its line, and the lines of one name stay together
  and in order. The order of the names is the runtime's choice.
\<close>

theorem header_lines_by_name:
  assumes "\<not> raw c" and "Header (msg d) \<noteq> []"
    and "wf_Header (Header (msg d))" and "visit_ok (Header (msg d)) (visit d)"
  shows "(\<exists>payload. printed L c n d =
            [summary L c n (msg d) (metadata L (msg d))]
            @ header_lines (Header (msg d)) (visit d) @ [nl] @ [Data (msg d) @ nl] @ payload)
    \<and> header_lines (Header (msg d)) (visit d) =
        concat (map (\<lambda>h. map (header_line h) (values_of (Header (msg d)) h)) (visit d))
    \<and> mset (header_lines (Header (msg d)) (visit d)) =
        mset (concat (map (\<lambda>(h, vals). map (header_line h) vals) (Header (msg d))))
    \<and> (\<forall>(h, vals) \<in> set (Header (msg d)).
          \<exists>pre post. header_lines (Header (msg d)) (visit d) = pre @ map (header_line h) vals @ post)"
  using assms header_lines_mset [OF assms(3,4)] header_lines_contiguous [OF assms(3,4)]
  by (auto simp: printed_eq header_lines_def)

theorem header_lines_by_name_witness:
  "\<not> raw example_cmd
   \<and> Header (msg \<lparr>msg = plain_msg\<lparr>Header := ab_header\<rparr>, visit = [''A'', ''B''], respond_err = None\<rparr>) \<noteq> []
   \<and> wf_Header ab_header \<and> visit_ok ab_header [''A'', ''B'']
   \<and> header_lines ab_header [''A'', ''B''] = [''A: 1'' @ nl, ''A: 2'' @ nl, ''B: x'' @ nl]"
proof -
  let ?d = "\<lparr>msg = plain_msg\<lparr>Header := ab_header\<rparr>, visit = [''A'', ''B''], respond_err = None\<rparr>"
  have h: "\<not> raw example_cmd" "Header (msg ?d) \<noteq> []" "wf_Header (Header (msg ?d))"
    "visit_ok (Header (msg ?d)) (visit ?d)"
    by (auto simp: example_cmd_def ab_header_def wf_Header_def visit_ok_def)
  show ?thesis
    using h header_lines_by_name [OF h, of example_lib 1]
    by (simp add: values_of_def header_line_def ab_header_def)
qed

text \<open>
  The claim as it is worded fixes the order of the names. Go leaves the order of a
  \<^verbatim>\<open>range\<close> over a map to the runtime, and when it visits B before A the line of B
  comes first.
\<close>

theorem header_order_counterexample:
  "visit_ok ab_header [''B'', ''A'']
   \<and> printed example_lib example_cmd 1
        \<lparr>msg = js_msg\<lparr>Reply := [], Header := ab_header\<rparr>, visit = [''B'', ''A''], respond_err = None\<rparr>
     = [''[#1] Received on '' @ [CHR 0x22] @ ''orders'' @ [CHR 0x22] @ nl,
        ''B: x'' @ nl, ''A: 1'' @ nl, ''A: 2'' @ nl, nl, ''paid'' @ nl, nl]"
proof
  show "visit_ok ab_header [''B'', ''A'']"
    by (auto simp: visit_ok_def ab_header_def)
  show "printed example_lib example_cmd 1
        \<lparr>msg = js_msg\<lparr>Reply := [], Header := ab_header\<rparr>, visit = [''B'', ''A''], respond_err = None\<rparr>
     = [''[#1] Received on '' @ [CHR 0x22] @ ''orders'' @ [CHR 0x22] @ nl,
        ''B: x'' @ nl, ''A: 1'' @ nl, ''A: 2'' @ nl, nl, ''paid'' @ nl, nl]"
    by (simp add: ab_header_def printed_eq example_cmd_def js_msg_def header_lines_def
      values_of_def header_line_def summary_def metadata_def example_lib_def show_int_def
      show_nat.simps digit_def HasSuffix_def nl_def)
qed

subsection \<open>C7: the flush and the last error\<close>

text \<open>
  Claim C7, as the code has it. Once the connection is open the command registers the
  subscription, calls \<^verbatim>\<open>Flush\<close> and drops what it returns, then reads \<^verbatim>\<open>LastError\<close>: it
  returns that error when there is one and waits for ever when there is none. What
  \<^verbatim>\<open>Flush\<close> returned changes nothing.
\<close>

theorem last_error_decides:
  assumes "subject c \<noteq> [] \<or> inbox c" and "conn_err E = None"
  shows "outcome (subscribe L E c) = (case last_err E of None \<Rightarrow> Blocked | Some x \<Rightarrow> Returned x)
   \<and> subscribe L (E\<lparr>flush_err := f\<rparr>) c = subscribe L E c
   \<and> (\<exists>before mid post. trace (subscribe L E c)
          = before @ [register (cmd (subscribe L E c)), Flush] @ mid @ [LastError] @ post)"
proof -
  have o: "outcome (subscribe L E c) = (case last_err E of None \<Rightarrow> Blocked | Some x \<Rightarrow> Returned x)"
    using assms by (simp add: subscribe_def connected_outcome)
  have f: "subscribe L (E\<lparr>flush_err := f\<rparr>) c = subscribe L E c"
    by (simp add: subscribe_def connected_flush_err)
  have t: "\<exists>before mid post. trace (subscribe L E c)
          = before @ [register (cmd (subscribe L E c)), Flush] @ mid @ [LastError] @ post"
    using assms(1,2) connected_trace_shape [of E L]
    by (simp add: subscribe_def connected_cmd)
  from o f t show ?thesis by blast
qed

theorem last_error_decides_witness:
  "subject example_cmd = ''orders''
   \<and> conn_err (quiet_env\<lparr>last_err := Some ''nats: permissions violation''\<rparr>) = None
   \<and> outcome (subscribe example_lib (quiet_env\<lparr>last_err := Some ''nats: permissions violation''\<rparr>)
                example_cmd) = Returned ''nats: permissions violation''"
proof -
  let ?E = "quiet_env\<lparr>last_err := Some ''nats: permissions violation''\<rparr>"
  have h: "subject example_cmd \<noteq> [] \<or> inbox example_cmd" "conn_err ?E = None"
    by (simp_all add: example_cmd_def quiet_env_def)
  show ?thesis
    using h last_error_decides [OF h] by (simp add: quiet_env_def example_cmd_def)
qed

text \<open>
  The claim as it is worded makes a failed flush fatal. When \<^verbatim>\<open>Flush\<close> times out and the
  connection has recorded no error, the command does not return: it waits at line 142.
\<close>

theorem flush_error_counterexample:
  "flush_err (quiet_env\<lparr>flush_err := Some ''nats: timeout''\<rparr>) = Some ''nats: timeout''
   \<and> outcome (subscribe example_lib (quiet_env\<lparr>flush_err := Some ''nats: timeout''\<rparr>) example_cmd)
       = Blocked"
  by (simp add: subscribe_def connected_def quiet_env_def example_cmd_def)

subsection \<open>C8: errors inside the callback\<close>

text \<open>
  Claim C8. No error of the callback leaves it or ends the subscription.
  \<^item> When the metadata does not parse, the callback makes no call of \<^verbatim>\<open>log\<close> and none of
    \<^verbatim>\<open>Respond\<close>: its trace is the lock, what it prints and the unlock, and outside raw
    mode the summary is that of a message without metadata.
  \<^item> When the acknowledgement fails, the callback logs the reply subject and the cause
    after the call of \<^verbatim>\<open>Respond\<close>, and the invocations that follow print and acknowledge
    as they would have, with the same indices.
  \<^item> What \<^verbatim>\<open>subscribe\<close> returns does not depend on the messages served while it runs:
    the callback has no result, and the error that line 82 leaves in the captured \<^verbatim>\<open>err\<close>
    is replaced at line 137 before line 138 tests the variable.
\<close>

theorem callback_errors_are_contained:
  "(ParseJSMsgMetadata L (msg d) = Inl e \<longrightarrow>
      snd (handler L c s d) = [MuLock] @ map Stdout (printed L c (i s + 1) d) @ [MuUnlock]
      \<and> (\<not> raw c \<longrightarrow> hd (printed L c (i s + 1) d) = summary L c (i s + 1) (msg d) None))
   \<and> (acking L c (msg d) \<and> respond_err d = Some e \<longrightarrow>
      snd (handler L c s d) =
        [MuLock] @ map Stdout (printed L c (i s + 1) d)
        @ [Respond (Reply (msg d)) [],
           Log (''Acknowledging message via subject '' @ Reply (msg d) @ '' failed: '' @ e @ nl),
           MuUnlock])
   \<and> snd (serve L c (fst (handler L c s d)) ds)
       = snd (serve L c (fst (handler L c s (d\<lparr>respond_err := None\<rparr>))) ds)
   \<and> indices L c (fst (handler L c s d)) ds
       = indices L c (fst (handler L c s (d\<lparr>respond_err := None\<rparr>))) ds
   \<and> outcome (subscribe L (E\<lparr>early := d # ds\<rparr>) c) = outcome (subscribe L (E\<lparr>early := []\<rparr>) c)"
proof -
  have 1: "ParseJSMsgMetadata L (msg d) = Inl e \<longrightarrow>
      snd (handler L c s d) = [MuLock] @ map Stdout (printed L c (i s + 1) d) @ [MuUnlock]
      \<and> (\<not> raw c \<longrightarrow> hd (printed L c (i s + 1) d) = summary L c (i s + 1) (msg d) None)"
    by (auto simp: handler_trace display_Stdout ack_def acking_def metadata_def printed_eq)
  have 2: "acking L c (msg d) \<and> respond_err d = Some e \<longrightarrow>
      snd (handler L c s d) =
        [MuLock] @ map Stdout (printed L c (i s + 1) d)
        @ [Respond (Reply (msg d)) [],
           Log (''Acknowledging message via subject '' @ Reply (msg d) @ '' failed: '' @ e @ nl),
           MuUnlock]"
    by (simp add: handler_trace display_Stdout ack_def)
  have 3: "snd (serve L c (fst (handler L c s d)) ds)
       = snd (serve L c (fst (handler L c s (d\<lparr>respond_err := None\<rparr>))) ds)"
    by (simp add: serve_trace indices_eq handler_i)
  have 4: "indices L c (fst (handler L c s d)) ds
       = indices L c (fst (handler L c s (d\<lparr>respond_err := None\<rparr>))) ds"
    by (simp add: indices_eq handler_i)
  have 5: "outcome (subscribe L (E\<lparr>early := d # ds\<rparr>) c) = outcome (subscribe L (E\<lparr>early := []\<rparr>) c)"
    by (simp add: subscribe_def connected_outcome_early)
  from 1 2 3 4 5 show ?thesis by blast
qed

theorem callback_errors_are_contained_witness:
  "acking example_lib (example_cmd\<lparr>raw := True\<rparr>) (msg failing_ack)
   \<and> respond_err failing_ack = Some ''nats: connection closed''
   \<and> snd (handler example_lib (example_cmd\<lparr>raw := True\<rparr>) \<lparr>i = 0, err = None\<rparr> failing_ack) =
        [MuLock, Stdout (''paid'' @ nl),
         Respond ''$JS.ACK.ORDERS.NEW.1.42.7.1605139610113260000.0'' [],
         Log (''Acknowledging message via subject $JS.ACK.ORDERS.NEW.1.42.7.1605139610113260000.0''
              @ '' failed: nats: connection closed'' @ nl),
         MuUnlock]
   \<and> outcome (subscribe example_lib (quiet_env\<lparr>early := [failing_ack]\<rparr>) (example_cmd\<lparr>raw := True\<rparr>))
       = Blocked"
proof -
  let ?c = "example_cmd\<lparr>raw := True\<rparr>"
  let ?s = "\<lparr>i = 0, err = None\<rparr>"
  have a: "acking example_lib ?c (msg failing_ack)"
    and r: "respond_err failing_ack = Some ''nats: connection closed''"
    by (simp_all add: acking_def metadata_def example_lib_def example_cmd_def failing_ack_def js_msg_def)
  have p: "printed example_lib ?c (i ?s + 1) failing_ack = [''paid'' @ nl]"
    by (simp add: printed_eq example_cmd_def failing_ack_def js_msg_def)
  have m: "Reply (msg failing_ack) = ''$JS.ACK.ORDERS.NEW.1.42.7.1605139610113260000.0''"
    by (simp add: failing_ack_def js_msg_def)
  have q: "outcome (subscribe example_lib (quiet_env\<lparr>early := []\<rparr>) ?c) = Blocked"
    by (simp add: subscribe_def connected_def quiet_env_def example_cmd_def)
  from callback_errors_are_contained [of example_lib failing_ack "''nats: connection closed''" ?c ?s
      "[]" quiet_env] a r p m q
  show ?thesis by simp
qed

subsection \<open>C9: a subject together with the inbox flag\<close>

text \<open>
  Claim C9. With a subject given and the inbox flag set, \<^verbatim>\<open>nats.NewInbox()\<close> is not
  called, the command's fields stay as they are, and the one call of \<^verbatim>\<open>Subscribe\<close> or
  \<^verbatim>\<open>QueueSubscribe\<close> (made when the connection opens) names the subject that was given.
\<close>

theorem explicit_subject_wins:
  "subject c \<noteq> [] \<Longrightarrow> inbox c \<Longrightarrow>
   cmd (subscribe L E c) = c
   \<and> NewInbox \<notin> set (trace (subscribe L E c))
   \<and> filter is_registration (trace (subscribe L E c)) =
       (if conn_err E = None
        then [if queue c \<noteq> [] then QueueSubscribe (subject c) (queue c) else Subscribe (subject c)]
        else [])"
  by (simp add: subscribe_def connected_cmd connected_NewInbox connected_registrations register_def)

theorem explicit_subject_wins_witness:
  "subject (example_cmd\<lparr>inbox := True, queue := ''workers''\<rparr>) \<noteq> []
   \<and> inbox (example_cmd\<lparr>inbox := True, queue := ''workers''\<rparr>)
   \<and> filter is_registration
        (trace (subscribe example_lib quiet_env (example_cmd\<lparr>inbox := True, queue := ''workers''\<rparr>)))
       = [QueueSubscribe ''orders'' ''workers'']"
proof -
  have h: "subject (example_cmd\<lparr>inbox := True, queue := ''workers''\<rparr>) \<noteq> []"
    "inbox (example_cmd\<lparr>inbox := True, queue := ''workers''\<rparr>)"
    by (simp_all add: example_cmd_def)
  show ?thesis
    using h explicit_subject_wins [OF h, of example_lib quiet_env]
    by (simp add: example_cmd_def quiet_env_def)
qed

subsection \<open>C10: the error of the subscribe call\<close>

text \<open>
  Claim C10. When \<^verbatim>\<open>Subscribe\<close> or \<^verbatim>\<open>QueueSubscribe\<close> returns an error, the command
  goes on as if it had not: the next calls are \<^verbatim>\<open>Flush\<close> and \<^verbatim>\<open>LastError\<close>, and the
  command returns the last error of the connection if there is one and waits for ever
  otherwise. The error of the call is returned only if the connection recorded it.
\<close>

theorem subscription_error_is_discarded:
  assumes "subject c \<noteq> [] \<or> inbox c" and "conn_err E = None" and "sub_err E = Some e"
  shows "outcome (subscribe L E c) = (case last_err E of None \<Rightarrow> Blocked | Some x \<Rightarrow> Returned x)
   \<and> (\<exists>before post. trace (subscribe L E c)
          = before @ [register (cmd (subscribe L E c)), Flush, LastError] @ post
        \<and> (post = [] \<or> post = [Close]))"
  using assms connected_unregistered_shape [OF assms(2,3), of L]
  by (simp add: subscribe_def connected_cmd connected_unregistered_outcome)

theorem subscription_error_is_discarded_witness:
  "subject example_cmd = ''orders''
   \<and> conn_err (quiet_env\<lparr>sub_err := Some ''nats: invalid subject''\<rparr>) = None
   \<and> sub_err (quiet_env\<lparr>sub_err := Some ''nats: invalid subject''\<rparr>) = Some ''nats: invalid subject''
   \<and> outcome (subscribe example_lib (quiet_env\<lparr>sub_err := Some ''nats: invalid subject''\<rparr>)
                example_cmd) = Blocked"
proof -
  let ?E = "quiet_env\<lparr>sub_err := Some ''nats: invalid subject''\<rparr>"
  have h: "subject example_cmd \<noteq> [] \<or> inbox example_cmd" "conn_err ?E = None"
    "sub_err ?E = Some ''nats: invalid subject''"
    by (simp_all add: example_cmd_def quiet_env_def)
  show ?thesis
    using h subscription_error_is_discarded [OF h, of example_lib]
    by (simp add: quiet_env_def example_cmd_def)
qed

end
